theory Spec2Isabelle
  imports Main "HOL-Library.Word"
begin

section \<open>Machine types and configuration (nixie.ino, lines 12-17)\<close>

type_synonym u8 = "8 word"
type_synonym u16 = "16 word"
type_synonym u32 = "32 word"

definition NUM_TUBES :: u8 where
  "NUM_TUBES = 6"

definition ATTRACT_DIM :: u8 where
  "ATTRACT_DIM = 0"

definition ATTRACT_MS :: u32 where
  "ATTRACT_MS = 50"

definition IDLE_PARSE_MS :: u32 where
  "IDLE_PARSE_MS = 30"

text \<open>\<open>sizeof(buf)\<close> for \<open>char buf[192]\<close>.\<close>

definition BUF_SIZE :: nat where
  "BUF_SIZE = 192"

text \<open>
  The width of the C++ type \<open>int\<close>. The sketch is built for the Arduino Nano (README:
  "through an Arduino Nano"), an ATmega328P, where avr-gcc gives \<open>int\<close> 16 bits and
  \<open>unsigned long\<close> 32 bits. Arithmetic that is done in \<open>int\<close> takes the width as an
  argument (\<open>c_int w\<close>), so that it can also be read at another width.
\<close>

definition INT_BITS :: nat where
  "INT_BITS = 16"

text \<open>
  A mathematical value stored in a two's complement \<open>int\<close> of \<open>w\<close> bits: the value
  itself when it fits, and otherwise its low \<open>w\<close> bits read as signed, which is what the
  16-bit multiply and add of the AVR leave (for C++ an \<open>int\<close> result that does not fit is
  undefined).
\<close>

definition c_int :: "nat \<Rightarrow> int \<Rightarrow> int" where
  "c_int w v = (v + 2 ^ (w - 1)) mod 2 ^ w - 2 ^ (w - 1)"

section \<open>State (lines 19-30)\<close>

record TubeState =
  digit :: u8
  r :: u8
  g :: u8
  b :: u8
  hv :: bool
  comma :: bool
  dim :: u16

text \<open>
  The colour macros of EasyNixie.h (\<open>EASY_NIXIE_BLUE\<close> ...), which the sketch only passes
  on to the driver.
\<close>

datatype color =
  EASY_NIXIE_BLUE | EASY_NIXIE_GREEN | EASY_NIXIE_RED | EASY_NIXIE_WHITE
  | EASY_NIXIE_RuB | EASY_NIXIE_RuG | EASY_NIXIE_BuG

text \<open>The calls the sketch makes on the driver object \<open>nixie\<close>.\<close>

datatype nixie_call =
  SetNixie u8 color bool bool u16
  | Latch

text \<open>
  The globals of the sketch, and what it drives. \<open>tubes\<close> is the array
  \<open>tubes[NUM_TUBES]\<close>, read and written below \<open>NUM_TUBES\<close> only. \<open>buf\<close> holds the
  bytes \<open>buf[0..blen)\<close>, so \<open>blen\<close> is its length. \<open>out_en\<close> is the duty cycle last
  written to \<open>PIN_OUT_EN\<close> by \<open>analogWrite\<close>, \<open>nixie\<close> the calls made on the driver so
  far, \<open>serial\<close> the lines printed with \<open>Serial.println\<close>.
\<close>

record firmware =
  tubes :: "nat \<Rightarrow> TubeState"
  gotFirstCommand :: bool
  buf :: string
  lastByteAt :: u32
  lastAttract :: u32
  out_en :: u8
  nixie :: "nixie_call list"
  serial :: "string list"

text \<open>The state a C++ program starts in: globals zero-initialised, nothing sent yet.\<close>

definition power_on :: firmware where
  "power_on =
     \<lparr>tubes = (\<lambda>_. \<lparr>digit = 0, r = 0, g = 0, b = 0, hv = False, comma = False, dim = 0\<rparr>),
      gotFirstCommand = False, buf = [], lastByteAt = 0, lastAttract = 0,
      out_en = 0, nixie = [], serial = []\<rparr>"

section \<open>Helpers (lines 33-37)\<close>

definition clamp255 :: "int \<Rightarrow> u8" where
  "clamp255 v = (if v < 0 then 0 else if v > 255 then 255 else word_of_int v)"

definition setBrightness :: "u8 \<Rightarrow> firmware \<Rightarrow> firmware" where
  "setBrightness = (\<lambda>dim s. s\<lparr>out_en := dim\<rparr>)"

definition setTube ::
  "u8 \<Rightarrow> u8 \<Rightarrow> u8 \<Rightarrow> u8 \<Rightarrow> u8 \<Rightarrow> bool \<Rightarrow> bool \<Rightarrow> u16 \<Rightarrow> firmware \<Rightarrow> firmware" where
  "setTube = (\<lambda>i d r g b hv comma dim s.
     if i < NUM_TUBES
     then s\<lparr>tubes := (tubes s)(unat i :=
            \<lparr>digit = d, r = r, g = g, b = b, hv = hv, comma = comma, dim = dim\<rparr>)\<rparr>
     else s)"

section \<open>Colour quantizer (lines 41-67)\<close>

text \<open>An entry of \<open>pal\<close>: \<open>{r, g, b, ev}\<close>.\<close>

type_synonym Pal = "u8 \<times> u8 \<times> u8 \<times> color"

definition pal :: "Pal list" where
  "pal =
     [(0, 0, 255, EASY_NIXIE_BLUE),
      (0, 255, 0, EASY_NIXIE_GREEN),
      (255, 0, 0, EASY_NIXIE_RED),
      (255, 255, 255, EASY_NIXIE_WHITE),
      (255, 0, 255, EASY_NIXIE_RuB),
      (255, 255, 0, EASY_NIXIE_RuG),
      (0, 255, 255, EASY_NIXIE_BuG)]"

definition ev :: "Pal \<Rightarrow> color" where
  "ev p = snd (snd (snd p))"

text \<open>The first loop: the \<open>ev\<close> of the first entry equal to the input, if there is one.\<close>

fun exact_match :: "u8 \<Rightarrow> u8 \<Rightarrow> u8 \<Rightarrow> Pal list \<Rightarrow> color option" where
  "exact_match cr cg cb [] = None"
| "exact_match cr cg cb ((pr, pg, pb, pe) # ps) =
     (if pr = cr \<and> pg = cg \<and> pb = cb then Some pe else exact_match cr cg cb ps)"

text \<open>
  \<open>d\<close> of the second loop, with \<open>int\<close> of \<open>w\<close> bits: \<open>dr\<close>, \<open>dg\<close>, \<open>db\<close> and the three
  products are \<open>int\<close>s, each product is then converted to \<open>uint32_t\<close>, and the sum is
  taken in \<open>uint32_t\<close>.
\<close>

definition pal_d :: "nat \<Rightarrow> u8 \<Rightarrow> u8 \<Rightarrow> u8 \<Rightarrow> Pal \<Rightarrow> u32" where
  "pal_d w cr cg cb p =
     (case p of (pr, pg, pb, pe) \<Rightarrow>
        let dr = c_int w (uint cr - uint pr);
            dg = c_int w (uint cg - uint pg);
            db = c_int w (uint cb - uint pb)
        in word_of_int (c_int w (dr * dr)) + word_of_int (c_int w (dg * dg))
           + word_of_int (c_int w (db * db)))"

fun nearest :: "nat \<Rightarrow> u8 \<Rightarrow> u8 \<Rightarrow> u8 \<Rightarrow> Pal list \<Rightarrow> u32 \<Rightarrow> color \<Rightarrow> color" where
  "nearest w cr cg cb [] bestD bestE = bestE"
| "nearest w cr cg cb (p # ps) bestD bestE =
     (let d = pal_d w cr cg cb p
      in if d < bestD then nearest w cr cg cb ps d (ev p)
         else nearest w cr cg cb ps bestD bestE)"

definition rgbToEnum_w :: "nat \<Rightarrow> u8 \<Rightarrow> u8 \<Rightarrow> u8 \<Rightarrow> color" where
  "rgbToEnum_w w cr cg cb =
     (case exact_match cr cg cb pal of
        Some e \<Rightarrow> e
      | None \<Rightarrow> nearest w cr cg cb pal 0xFFFFFFFF (ev (hd pal)))"

definition rgbToEnum :: "u8 \<Rightarrow> u8 \<Rightarrow> u8 \<Rightarrow> color" where
  "rgbToEnum = rgbToEnum_w INT_BITS"

section \<open>Render (lines 70-78)\<close>

definition nixie_SetNixie :: "u8 \<Rightarrow> color \<Rightarrow> bool \<Rightarrow> bool \<Rightarrow> u16 \<Rightarrow> firmware \<Rightarrow> firmware" where
  "nixie_SetNixie n c v k d s = s\<lparr>nixie := nixie s @ [SetNixie n c v k d]\<rparr>"

definition nixie_Latch :: "firmware \<Rightarrow> firmware" where
  "nixie_Latch s = s\<lparr>nixie := nixie s @ [Latch]\<rparr>"

text \<open>The body of the loop of \<open>render\<close> for tube \<open>i\<close>.\<close>

definition render_tube :: "nat \<Rightarrow> firmware \<Rightarrow> firmware" where
  "render_tube i s =
     (let t = tubes s i;
          shown = (if hv t \<and> digit t \<le> 9 then digit t else 0);
          col = rgbToEnum (r t) (g t) (b t)
      in nixie_SetNixie shown col (hv t) (comma t) (dim t) s)"

text \<open>
  \<open>for (int i = NUM_TUBES - 1; i >= 0; --i)\<close>: \<open>render_loop n\<close> runs the body for
  \<open>i = n - 1\<close> down to \<open>0\<close>.
\<close>

primrec render_loop :: "nat \<Rightarrow> firmware \<Rightarrow> firmware" where
  "render_loop 0 s = s"
| "render_loop (Suc i) s = render_loop i (render_tube i s)"

definition render :: "firmware \<Rightarrow> firmware" where
  "render s = nixie_Latch (render_loop (unat NUM_TUBES) s)"

section \<open>C strings and the library calls of the parser\<close>

text \<open>The C string held in a buffer: the bytes before the first NUL.\<close>

definition cstr :: "string \<Rightarrow> string" where
  "cstr bs = takeWhile (\<lambda>c. c \<noteq> CHR 0x00) bs"

definition isspace :: "char \<Rightarrow> bool" where
  "isspace c = (c = CHR '' '' \<or> c = CHR 0x09 \<or> c = CHR 0x0A \<or> c = CHR 0x0B
                \<or> c = CHR 0x0C \<or> c = CHR 0x0D)"

definition isdigit :: "char \<Rightarrow> bool" where
  "isdigit c = (48 \<le> (of_char c :: nat) \<and> (of_char c :: nat) \<le> 57)"

text \<open>
  \<open>atoi\<close>: white space, an optional sign, then the decimal digits that follow; whatever
  comes after them is not read, and no digit at all gives 0. The result is an \<open>int\<close>;
  avr-libc does not detect overflow, the value is kept modulo \<open>2 ^ INT_BITS\<close>.
\<close>

definition atoi :: "string \<Rightarrow> int" where
  "atoi s =
     (let s1 = dropWhile isspace s;
          neg = (s1 \<noteq> [] \<and> hd s1 = CHR ''-'');
          s2 = (if s1 \<noteq> [] \<and> (hd s1 = CHR ''-'' \<or> hd s1 = CHR ''+'') then tl s1 else s1);
          v = foldl (\<lambda>a c. a * 10 + (int (of_char c) - 48)) 0 (takeWhile isdigit s2)
      in c_int INT_BITS (if neg then - v else v))"

text \<open>
  \<open>strtok_r(..., ",", &save)\<close> on the string \<open>s\<close> that is left to scan: leading commas
  are skipped; if nothing is left there is no token, otherwise the token runs up to the
  next comma and \<open>save\<close> is what follows that comma.
\<close>

definition strtok_r :: "string \<Rightarrow> (string \<times> string) option" where
  "strtok_r s =
     (let s1 = dropWhile (\<lambda>c. c = CHR '','') s
      in if s1 = [] then None
         else Some (takeWhile (\<lambda>c. c \<noteq> CHR '','') s1,
                    drop 1 (dropWhile (\<lambda>c. c \<noteq> CHR '','') s1)))"

section \<open>Trim helpers (lines 81-85)\<close>

definition rtrim :: "string \<Rightarrow> string" where
  "rtrim s =
     rev (dropWhile (\<lambda>c. c = CHR 0x0D \<or> c = CHR 0x0A \<or> c = CHR '' '' \<or> c = CHR 0x09) (rev s))"

definition ltrim :: "string \<Rightarrow> string" where
  "ltrim s = dropWhile (\<lambda>c. c = CHR '' '' \<or> c = CHR 0x09) s"

section \<open>The N line (lines 88-115)\<close>

text \<open>
  The loop over the six fields, \<open>n\<close> of them still to read from \<open>save\<close>: \<open>None\<close> is the
  \<open>return false\<close> on a missing token.
\<close>

fun read_fields :: "nat \<Rightarrow> string \<Rightarrow> int list option" where
  "read_fields 0 save = Some []"
| "read_fields (Suc n) save =
     (case strtok_r save of
        None \<Rightarrow> None
      | Some (tok, save') \<Rightarrow>
          (case read_fields n save' of
             None \<Rightarrow> None
           | Some fs \<Rightarrow> Some (atoi (ltrim tok) # fs)))"

text \<open>
  Lines 89-97: the first \<open>strtok_r\<close> eats the directive, the loop reads \<open>f[0..5]\<close>.
\<close>

definition N_fields :: "string \<Rightarrow> int list option" where
  "N_fields p =
     read_fields 6 (case strtok_r p of None \<Rightarrow> [] | Some (tok, rest) \<Rightarrow> rest)"

definition parseNLine :: "string \<Rightarrow> firmware \<Rightarrow> bool \<times> firmware" where
  "parseNLine p s =
     (case N_fields p of
           None \<Rightarrow> (False, s)
         | Some f \<Rightarrow>
             let idx = (word_of_int (f ! 0) :: u8);
                 digit = (word_of_int (f ! 1) :: u8);
                 r = clamp255 (f ! 2);
                 g = clamp255 (f ! 3);
                 b = clamp255 (f ! 4);
                 dim = (word_of_int (f ! 5) :: u8)
             in if idx \<ge> NUM_TUBES then (False, s)
                else
                  let s1 = s\<lparr>gotFirstCommand := True\<rparr>;
                      s2 = setBrightness dim s1;
                      hv = (digit \<le> 9);
                      s3 = setTube idx (if hv then digit else 0) r g b hv False (ucast dim) s2
                  in (True, render s3))"

section \<open>Serial line handler (lines 118-141)\<close>

definition Serial_println :: "string \<Rightarrow> firmware \<Rightarrow> firmware" where
  "Serial_println msg s = s\<lparr>serial := serial s @ [msg]\<rparr>"

definition handleLine :: "string \<Rightarrow> firmware \<Rightarrow> firmware" where
  "handleLine raw s =
     (let p = ltrim (rtrim (cstr raw))
      in if p = [] then s
         else if p = ''42'' then Serial_println ''so long and thanks for all the fish'' s
         else if p = ''A'' \<or> p = ''a''
           then Serial_println ''Attract mode resumed'' (s\<lparr>gotFirstCommand := False\<rparr>)
         else if hd p = CHR ''N'' \<or> hd p = CHR ''n''
           then (case parseNLine p s of
                   (ok, s') \<Rightarrow> if \<not> ok then Serial_println ''ERR parse N line'' s' else s')
         else s)"

section \<open>setup and loop (lines 143-189)\<close>

text \<open>
  \<open>random(0, 10)\<close> of the Arduino core is \<open>random() % 10\<close>, where \<open>random()\<close> is the next
  value of the generator of avr-libc; \<open>raw\<close> is that value.
\<close>

definition random_0_10 :: "nat \<Rightarrow> u8" where
  "random_0_10 raw = of_nat (raw mod 10)"

text \<open>
  \<open>for (uint8_t i=0;i<NUM_TUBES;i++) setTube(i, random(0,10), 255, 0, 0, true, false,
  ATTRACT_DIM)\<close>: \<open>attract_fill n\<close> has run the body for \<open>i = 0\<close> up to \<open>n - 1\<close>;
  \<open>rnd i\<close> is the value the generator gives in round \<open>i\<close>.
\<close>

primrec attract_fill :: "nat \<Rightarrow> (nat \<Rightarrow> nat) \<Rightarrow> firmware \<Rightarrow> firmware" where
  "attract_fill 0 rnd s = s"
| "attract_fill (Suc i) rnd s =
     setTube (of_nat i) (random_0_10 (rnd i)) 255 0 0 True False (ucast ATTRACT_DIM)
       (attract_fill i rnd s)"

text \<open>\<open>setup\<close>; \<open>now\<close> is what \<open>millis()\<close> returns at its end.\<close>

definition setup_fn :: "(nat \<Rightarrow> nat) \<Rightarrow> u32 \<Rightarrow> firmware \<Rightarrow> firmware" where
  "setup_fn rnd now s =
     (let s1 = setBrightness ATTRACT_DIM s;
          s2 = attract_fill (unat NUM_TUBES) rnd s1;
          s3 = render (render s2)
      in s3\<lparr>lastAttract := now\<rparr>)"

text \<open>
  One round of the serial reader: the byte \<open>c\<close> read, and \<open>now\<close>, what \<open>millis()\<close>
  returns right after.
\<close>

definition serial_byte :: "char \<times> u32 \<Rightarrow> firmware \<Rightarrow> firmware" where
  "serial_byte cn s =
     (case cn of (c, now) \<Rightarrow>
        let s1 = s\<lparr>lastByteAt := now\<rparr>
        in if c = CHR 0x0A \<or> c = CHR 0x0D
           then (if length (buf s1) \<noteq> 0 then (handleLine (buf s1) s1)\<lparr>buf := []\<rparr> else s1)
           else if length (buf s1) + 1 < BUF_SIZE then s1\<lparr>buf := buf s1 @ [c]\<rparr>
           else Serial_println ''ERR buffer overflow'' (s1\<lparr>buf := []\<rparr>))"

text \<open>\<open>while (Serial.available())\<close>, over the bytes that are there in this pass.\<close>

fun serial_reader :: "(char \<times> u32) list \<Rightarrow> firmware \<Rightarrow> firmware" where
  "serial_reader [] s = s"
| "serial_reader (cn # rest) s = serial_reader rest (serial_byte cn s)"

text \<open>Lines 174-176; \<open>now\<close> is \<open>millis()\<close> there.\<close>

definition idle_flush :: "u32 \<Rightarrow> firmware \<Rightarrow> firmware" where
  "idle_flush now s =
     (if length (buf s) > 0 \<and> now - lastByteAt s \<ge> IDLE_PARSE_MS
      then (handleLine (buf s) s)\<lparr>buf := []\<rparr>
      else s)"

text \<open>Lines 179-188; \<open>now\<close> is \<open>millis()\<close> there, \<open>rnd\<close> the generator's next values.\<close>

definition attract_tick :: "u32 \<Rightarrow> (nat \<Rightarrow> nat) \<Rightarrow> firmware \<Rightarrow> firmware" where
  "attract_tick now rnd s =
     (if \<not> gotFirstCommand s
      then (if now - lastAttract s \<ge> ATTRACT_MS
            then (render (attract_fill (unat NUM_TUBES) rnd (setBrightness ATTRACT_DIM s)))
                   \<lparr>lastAttract := now\<rparr>
            else s)
      else s)"

text \<open>What one pass of \<open>loop\<close> meets: the bytes waiting, the clock, the generator.\<close>

record loop_env =
  rx :: "(char \<times> u32) list"
  idle_now :: u32
  attract_now :: u32
  rnd_raw :: "nat \<Rightarrow> nat"

definition loop :: "loop_env \<Rightarrow> firmware \<Rightarrow> firmware" where
  "loop e s =
     attract_tick (attract_now e) (rnd_raw e)
       (idle_flush (idle_now e) (serial_reader (rx e) s))"

text \<open>The states the firmware can be in: after \<open>setup\<close>, and after any pass of \<open>loop\<close>.\<close>

inductive reachable :: "firmware \<Rightarrow> bool" where
  boot: "reachable (setup_fn rnd now power_on)"
| pass: "reachable s \<Longrightarrow> reachable (loop e s)"

section \<open>Notions the properties are stated with\<close>

text \<open>The call \<open>render\<close> makes for a tube whose state is \<open>t\<close> (lines 73-75).\<close>

definition tube_call :: "TubeState \<Rightarrow> nixie_call" where
  "tube_call t =
     SetNixie (if hv t \<and> digit t \<le> 9 then digit t else 0) (rgbToEnum (r t) (g t) (b t))
       (hv t) (comma t) (dim t)"

text \<open>
  The comma-separated fields of a line, read off the text and not off the parser:
  \<open>split_commas\<close> cuts at every comma, \<open>tokens\<close> keeps the pieces that are not empty.
\<close>

primrec split_commas :: "string \<Rightarrow> string list" where
  "split_commas [] = [[]]"
| "split_commas (c # cs) =
     (if c = CHR '','' then [] # split_commas cs
      else (c # hd (split_commas cs)) # tl (split_commas cs))"

definition tokens :: "string \<Rightarrow> string list" where
  "tokens s = filter (\<lambda>t. t \<noteq> []) (split_commas s)"

text \<open>Where \<open>save\<close> points after a token has been taken from \<open>s\<close>.\<close>

definition after_token :: "string \<Rightarrow> string" where
  "after_token s =
     drop 1 (dropWhile (\<lambda>c. c \<noteq> CHR '','') (dropWhile (\<lambda>c. c = CHR '','') s))"

text \<open>The tube state lines 99-112 build from the six numbers \<open>f\<close>.\<close>

definition N_tube :: "int list \<Rightarrow> TubeState" where
  "N_tube f =
     \<lparr>digit = (if (word_of_int (f ! 1) :: u8) \<le> 9 then word_of_int (f ! 1) else 0),
      r = clamp255 (f ! 2), g = clamp255 (f ! 3), b = clamp255 (f ! 4),
      hv = ((word_of_int (f ! 1) :: u8) \<le> 9), comma = False,
      dim = ucast (word_of_int (f ! 5) :: u8)\<rparr>"

text \<open>What the attract fill stores in a tube when the generator gives \<open>raw\<close>.\<close>

definition attract_state :: "nat \<Rightarrow> TubeState" where
  "attract_state raw =
     \<lparr>digit = random_0_10 raw, r = 255, g = 0, b = 0, hv = True, comma = False, dim = 0\<rparr>"

text \<open>Every tube of the store holds a digit of at most 9.\<close>

definition digits_ok :: "firmware \<Rightarrow> bool" where
  "digits_ok s = list_all (\<lambda>i. digit (tubes s i) \<le> 9) [0..<unat NUM_TUBES]"

text \<open>
  The squared Euclidean distance between an RGB triple and a palette entry, as a
  number (nothing wraps).
\<close>

definition sqdist :: "u8 \<Rightarrow> u8 \<Rightarrow> u8 \<Rightarrow> Pal \<Rightarrow> int" where
  "sqdist cr cg cb p =
     (case p of (pr, pg, pb, pe) \<Rightarrow>
        (uint cr - uint pr)\<^sup>2 + (uint cg - uint pg)\<^sup>2 + (uint cb - uint pb)\<^sup>2)"

section \<open>What \<open>render\<close> sends\<close>

lemma render_tube_eq: "render_tube i s = s\<lparr>nixie := nixie s @ [tube_call (tubes s i)]\<rparr>"
  by (simp add: render_tube_def tube_call_def nixie_SetNixie_def Let_def)

lemma render_loop_eq:
  "render_loop n s = s\<lparr>nixie := nixie s @ map (\<lambda>i. tube_call (tubes s i)) (rev [0..<n])\<rparr>"
  by (induction n arbitrary: s) (simp_all add: render_tube_eq)

lemma rev_upt_6: "rev [0..<6] = [5, 4, 3, 2, 1, 0::nat]"
  by (simp add: upt_rec)

lemma unat_NUM_TUBES: "unat NUM_TUBES = 6"
  by (simp add: NUM_TUBES_def)

lemma render_eq:
  "render s =
     s\<lparr>nixie := nixie s @ map (\<lambda>i. tube_call (tubes s i)) [5, 4, 3, 2, 1, 0] @ [Latch]\<rparr>"
  by (simp add: render_def nixie_Latch_def render_loop_eq unat_NUM_TUBES rev_upt_6)

text \<open>
  C5. One \<open>render\<close> makes exactly seven calls on the driver and changes nothing else:
  one \<open>SetNixie\<close> per tube, for tube 5 first and tube 0 last, each with the digit after
  the blank clamp, the quantized colour, the lit flag, the comma flag and the brightness
  of that tube, and then one \<open>Latch\<close>.
\<close>

theorem render_far_to_near_then_latch:
  "render s =
     s\<lparr>nixie := nixie s @
        [tube_call (tubes s 5), tube_call (tubes s 4), tube_call (tubes s 3),
         tube_call (tubes s 2), tube_call (tubes s 1), tube_call (tubes s 0), Latch]\<rparr>"
  by (simp add: render_def nixie_Latch_def render_loop_eq unat_NUM_TUBES rev_upt_6)

section \<open>The parser's tokens are the fields of the line\<close>

lemma hd_split_commas: "hd (split_commas cs) = takeWhile (\<lambda>c. c \<noteq> CHR '','') cs"
  by (induction cs) simp_all

lemma tl_split_commas:
  "tl (split_commas cs) =
     (if dropWhile (\<lambda>c. c \<noteq> CHR '','') cs = [] then []
      else split_commas (tl (dropWhile (\<lambda>c. c \<noteq> CHR '','') cs)))"
  by (induction cs) auto

lemma tokens_Nil: "tokens [] = []"
  by (simp add: tokens_def)

lemma strtok_r_comma: "strtok_r (CHR '','' # cs) = strtok_r cs"
  by (simp add: strtok_r_def)

lemma tokens_comma: "tokens (CHR '','' # cs) = tokens cs"
  by (simp add: tokens_def)

lemma after_token_comma: "after_token (CHR '','' # cs) = after_token cs"
  by (simp add: after_token_def)

lemma strtok_r_tokens:
  "strtok_r s = (case tokens s of [] \<Rightarrow> None | t # ts \<Rightarrow> Some (t, after_token s))"
proof (induction s)
  case Nil
  show ?case by (simp add: strtok_r_def tokens_def)
next
  case (Cons c cs)
  show ?case
  proof (cases "c = CHR '',''")
    case True
    show ?thesis
      unfolding True strtok_r_comma tokens_comma after_token_comma by (rule Cons.IH)
  next
    case False
    then show ?thesis
      by (simp add: strtok_r_def tokens_def hd_split_commas after_token_def)
  qed
qed

lemma tokens_after_token: "tokens (after_token s) = tl (tokens s)"
proof (induction s)
  case Nil
  show ?case by (simp add: tokens_def after_token_def)
next
  case (Cons c cs)
  show ?case
  proof (cases "c = CHR '',''")
    case True
    show ?thesis
      unfolding True tokens_comma after_token_comma by (rule Cons.IH)
  next
    case False
    have a: "after_token (c # cs) = drop 1 (dropWhile (\<lambda>c. c \<noteq> CHR '','') cs)"
      using False by (simp add: after_token_def)
    have b: "tl (tokens (c # cs)) = filter (\<lambda>t. t \<noteq> []) (tl (split_commas cs))"
      using False by (simp add: tokens_def)
    show ?thesis
    proof (cases "dropWhile (\<lambda>c. c \<noteq> CHR '','') cs = []")
      case True
      show ?thesis
        unfolding a b tl_split_commas True by (simp add: tokens_def)
    next
      case False
      then show ?thesis
        unfolding a b tl_split_commas by (auto simp add: tokens_def drop_Suc)
    qed
  qed
qed

lemma read_fields_tokens:
  "read_fields n save =
     (if n \<le> length (tokens save) then Some (map (\<lambda>t. atoi (ltrim t)) (take n (tokens save)))
      else None)"
proof (induction n arbitrary: save)
  case 0
  show ?case by simp
next
  case (Suc n)
  show ?case
  proof (cases "tokens save")
    case Nil
    then show ?thesis by (simp add: strtok_r_tokens)
  next
    case (Cons t ts)
    then show ?thesis
      by (simp add: strtok_r_tokens Suc tokens_after_token)
  qed
qed

lemma N_fields_tokens:
  "N_fields p =
     (if 6 \<le> length (tl (tokens p))
      then Some (map (\<lambda>t. atoi (ltrim t)) (take 6 (tl (tokens p))))
      else None)"
proof (cases "tokens p")
  case Nil
  then show ?thesis by (simp add: N_fields_def strtok_r_tokens read_fields_tokens tokens_Nil)
next
  case (Cons t ts)
  then show ?thesis
    by (simp add: N_fields_def strtok_r_tokens read_fields_tokens tokens_after_token)
qed

section \<open>The N line in general\<close>

lemma parseNLine_missing: "N_fields p = None \<Longrightarrow> parseNLine p s = (False, s)"
  by (simp add: parseNLine_def)

lemma parseNLine_fields:
  "N_fields p = Some f \<Longrightarrow>
     parseNLine p s =
       (if NUM_TUBES \<le> (word_of_int (f ! 0) :: u8) then (False, s)
        else (True, render (s\<lparr>gotFirstCommand := True, out_en := word_of_int (f ! 5),
                tubes := (tubes s)(unat (word_of_int (f ! 0) :: u8) := N_tube f)\<rparr>)))"
  by (simp add: parseNLine_def Let_def setBrightness_def setTube_def N_tube_def not_less)

lemma handleLine_N:
  assumes "p = ltrim (rtrim (cstr raw))" and "p \<noteq> []"
    and "hd p = CHR ''N'' \<or> hd p = CHR ''n''"
  shows "handleLine raw s =
           (case parseNLine p s of
              (ok, s') \<Rightarrow> if \<not> ok then Serial_println ''ERR parse N line'' s' else s')"
proof -
  have "p \<noteq> ''42''" "p \<noteq> ''A''" "p \<noteq> ''a''"
    using assms(3) by auto
  then show ?thesis
    using assms unfolding handleLine_def Let_def by simp
qed

text \<open>
  What a line does whose trimmed text starts with \<open>N\<close> or \<open>n\<close>, by its fields.
\<close>

lemma handleLine_N_line:
  assumes "p = ltrim (rtrim (cstr raw))" and "p \<noteq> []"
    and "hd p = CHR ''N'' \<or> hd p = CHR ''n''"
  shows "handleLine raw s =
     (let ts = tl (tokens p); f = map (\<lambda>t. atoi (ltrim t)) (take 6 ts)
      in if length ts < 6 \<or> NUM_TUBES \<le> (word_of_int (f ! 0) :: u8)
         then Serial_println ''ERR parse N line'' s
         else render (s\<lparr>gotFirstCommand := True, out_en := word_of_int (f ! 5),
                tubes := (tubes s)(unat (word_of_int (f ! 0) :: u8) := N_tube f)\<rparr>))"
proof (cases "6 \<le> length (tl (tokens p))")
  case True
  then have "N_fields p = Some (map (\<lambda>t. atoi (ltrim t)) (take 6 (tl (tokens p))))"
    by (simp add: N_fields_tokens)
  then show ?thesis
    using True by (simp add: handleLine_N [OF assms] parseNLine_fields Let_def)
next
  case False
  then have "N_fields p = None"
    by (simp add: N_fields_tokens)
  then show ?thesis
    using False by (simp add: handleLine_N [OF assms] parseNLine_missing Let_def)
qed

lemma index_byte:
  fixes k :: int
  assumes "0 \<le> k" and "k < 6"
  shows "unat (word_of_int k :: u8) = nat k" and "\<not> NUM_TUBES \<le> (word_of_int k :: u8)"
proof -
  have u: "uint (word_of_int k :: u8) = k"
    using assms by (simp add: uint_word_of_int take_bit_eq_mod)
  show "unat (word_of_int k :: u8) = nat k"
    by (simp add: unat_eq_nat_uint u)
  show "\<not> NUM_TUBES \<le> (word_of_int k :: u8)"
    using assms by (simp add: NUM_TUBES_def word_le_def u)
qed

text \<open>
  C3, as the code has it. For a line whose trimmed text starts with \<open>N\<close> or \<open>n\<close>: when
  fewer than six non-empty fields follow the directive, \<open>ERR parse N line\<close> is printed and
  nothing else changes. No field is checked for being a number: each counts as what
  \<open>atoi\<close> reads from it, and when six fields are there and the index so read is one of
  0..5, the line is carried out as a display update with those numbers.
\<close>

theorem N_line_fields_read_by_atoi:
  assumes "p = ltrim (rtrim (cstr raw))" and "p \<noteq> []"
    and "hd p = CHR ''N'' \<or> hd p = CHR ''n''"
  shows "(let ts = tl (tokens p); f = map (\<lambda>t. atoi (ltrim t)) (take 6 ts)
      in (length ts < 6 \<longrightarrow> handleLine raw s = Serial_println ''ERR parse N line'' s)
         \<and> (6 \<le> length ts \<and> 0 \<le> f ! 0 \<and> f ! 0 < 6 \<longrightarrow>
              handleLine raw s =
                render (s\<lparr>gotFirstCommand := True, out_en := word_of_int (f ! 5),
                  tubes := (tubes s)(nat (f ! 0) := N_tube f)\<rparr>)))"
  unfolding Let_def
proof (intro conjI impI)
  assume "length (tl (tokens p)) < 6"
  then show "handleLine raw s = Serial_println ''ERR parse N line'' s"
    by (simp add: handleLine_N_line [OF assms] Let_def)
next
  let ?f = "map (\<lambda>t. atoi (ltrim t)) (take 6 (tl (tokens p)))"
  assume h: "6 \<le> length (tl (tokens p)) \<and> 0 \<le> ?f ! 0 \<and> ?f ! 0 < 6"
  from h have k: "0 \<le> ?f ! 0" "?f ! 0 < 6" by blast+
  from h have len: "\<not> length (tl (tokens p)) < 6" by (simp add: not_less)
  show "handleLine raw s =
          render (s\<lparr>gotFirstCommand := True, out_en := word_of_int (?f ! 5),
            tubes := (tubes s)(nat (?f ! 0) := N_tube ?f)\<rparr>)"
    unfolding handleLine_N_line [OF assms] Let_def
    using len index_byte [OF k] by simp
qed

text \<open>
  C9. When \<open>parseNLine\<close> returns true, six fields were there, the mode flag is set, the
  brightness written to the output-enable pin is the dim field as a byte (the field
  modulo 256: no range check, no clamp), the index byte is below \<open>NUM_TUBES\<close>, exactly
  the addressed tube is rewritten, and that tube carries the same brightness.
\<close>

theorem N_command_sets_brightness_and_mode:
  assumes "parseNLine p s = (True, s')"
  shows "6 \<le> length (tl (tokens p)) \<and>
     (let f = map (\<lambda>t. atoi (ltrim t)) (take 6 (tl (tokens p)))
      in gotFirstCommand s'
         \<and> out_en s' = word_of_int (f ! 5)
         \<and> uint (out_en s') = f ! 5 mod 256
         \<and> (word_of_int (f ! 0) :: u8) < NUM_TUBES
         \<and> tubes s' = (tubes s)(unat (word_of_int (f ! 0) :: u8) := N_tube f)
         \<and> dim (N_tube f) = ucast (out_en s'))"
proof (cases "N_fields p")
  case None
  then show ?thesis using assms by (simp add: parseNLine_missing)
next
  case (Some f)
  have len: "6 \<le> length (tl (tokens p))"
    using Some by (simp add: N_fields_tokens split: if_splits)
  have f: "f = map (\<lambda>t. atoi (ltrim t)) (take 6 (tl (tokens p)))"
    using Some by (simp add: N_fields_tokens split: if_splits)
  have ok: "\<not> NUM_TUBES \<le> (word_of_int (f ! 0) :: u8)"
    using assms by (simp add: parseNLine_fields [OF Some] split: if_splits)
  have s': "s' = render (s\<lparr>gotFirstCommand := True, out_en := word_of_int (f ! 5),
                tubes := (tubes s)(unat (word_of_int (f ! 0) :: u8) := N_tube f)\<rparr>)"
    using assms ok by (simp add: parseNLine_fields [OF Some])
  have u: "uint (word_of_int (f ! 5) :: u8) = f ! 5 mod 256"
    by (simp add: uint_word_of_int)
  show ?thesis
    using len ok u unfolding Let_def f [symmetric] s'
    by (simp add: render_eq N_tube_def not_le)
qed

section \<open>The N line on concrete input\<close>

lemma trim_15: "ltrim (rtrim (cstr ''N,0,15,10,10,10,0'')) = ''N,0,15,10,10,10,0''"
  by code_simp

lemma fields_15: "N_fields ''N,0,15,10,10,10,0'' = Some [0, 15, 10, 10, 10, 0]"
  by code_simp

lemma handleLine_15:
  "handleLine ''N,0,15,10,10,10,0'' s =
     render (s\<lparr>gotFirstCommand := True, out_en := 0,
               tubes := (tubes s)(0 :=
                 \<lparr>digit = 0, r = 10, g = 10, b = 10, hv = False, comma = False, dim = 0\<rparr>)\<rparr>)"
  unfolding handleLine_def trim_15 Let_def
  by (simp add: parseNLine_def fields_15 NUM_TUBES_def setBrightness_def setTube_def clamp255_def)

text \<open>
  C2, as the code has it. The line \<open>N,0,15,10,10,10,0\<close> is accepted from any state: nothing
  is printed, the mode flag is set, and tube 0 is stored with digit 0 and \<open>hv\<close> false, that
  is, not lit. The render that follows sends digit 0 with the lit flag false for tube 0.
\<close>

theorem digit_15_stored_unlit:
  "(let s' = handleLine ''N,0,15,10,10,10,0'' s in
     tubes s' 0 = \<lparr>digit = 0, r = 10, g = 10, b = 10, hv = False, comma = False, dim = 0\<rparr>
     \<and> serial s' = serial s
     \<and> gotFirstCommand s'
     \<and> nixie s' = nixie s @
           [tube_call (tubes s 5), tube_call (tubes s 4), tube_call (tubes s 3),
            tube_call (tubes s 2), tube_call (tubes s 1),
            SetNixie 0 (rgbToEnum 10 10 10) False False 0, Latch])"
  by (simp add: Let_def handleLine_15 render_eq tube_call_def)

text \<open>C2 as stated fails: after the line, tube 0 is not lit.\<close>

theorem digit_15_lit_counterexample:
  "\<not> hv (tubes (handleLine ''N,0,15,10,10,10,0'' power_on) 0)"
  by (simp add: handleLine_15 render_eq)

text \<open>The index 9 of the README's six tubes is refused, and nothing but the reply changes.\<close>

lemma trim_9: "ltrim (rtrim (cstr ''N,9,5,255,0,0,0'')) = ''N,9,5,255,0,0,0''"
  by code_simp

lemma fields_9: "N_fields ''N,9,5,255,0,0,0'' = Some [9, 5, 255, 0, 0, 0]"
  by code_simp

lemma idx_9_refused:
  "handleLine ''N,9,5,255,0,0,0'' s = Serial_println ''ERR parse N line'' s"
  unfolding handleLine_def trim_9 Let_def
  by (simp add: parseNLine_fields [OF fields_9] NUM_TUBES_def)

lemma trim_256: "ltrim (rtrim (cstr ''N,256,5,255,0,0,0'')) = ''N,256,5,255,0,0,0''"
  by code_simp

lemma fields_256: "N_fields ''N,256,5,255,0,0,0'' = Some [256, 5, 255, 0, 0, 0]"
  by code_simp

text \<open>
  C1 at the line \<open>N,256,5,255,0,0,0\<close>. The index field is 256, which is no tube of the six;
  \<open>(uint8_t)f[0]\<close> is 0, the check \<open>idx >= NUM_TUBES\<close> passes, and from any state the
  line rewrites tube 0, sets the mode flag, renders (seven more calls on the driver) and
  prints no error.
\<close>

theorem idx_256_writes_tube_0:
  "tubes (handleLine ''N,256,5,255,0,0,0'' s) 0 =
       \<lparr>digit = 5, r = 255, g = 0, b = 0, hv = True, comma = False, dim = 0\<rparr>
   \<and> gotFirstCommand (handleLine ''N,256,5,255,0,0,0'' s)
   \<and> serial (handleLine ''N,256,5,255,0,0,0'' s) = serial s
   \<and> length (nixie (handleLine ''N,256,5,255,0,0,0'' s)) = length (nixie s) + 7"
  unfolding handleLine_def trim_256 Let_def
  by (simp add: parseNLine_def fields_256 NUM_TUBES_def setBrightness_def setTube_def clamp255_def
      render_eq)

lemma trim_265: "ltrim (rtrim (cstr ''N,0,265,255,0,0,0'')) = ''N,0,265,255,0,0,0''"
  by code_simp

lemma fields_265: "N_fields ''N,0,265,255,0,0,0'' = Some [0, 265, 255, 0, 0, 0]"
  by code_simp

text \<open>
  C10 at the line \<open>N,0,265,255,0,0,0\<close>. The digit field is 265, which is no digit;
  \<open>(uint8_t)f[1]\<close> is 9, the test \<open>digit <= 9\<close> at line 111 holds, and from any state the
  line stores tube 0 lit with digit 9, sets the mode flag, prints no error, and the
  render sends digit 9 with the lit flag true for tube 0. The field is not stored as 0
  with \<open>hv\<close> false (the stored digit itself is still at most 9).
\<close>

theorem digit_265_stored_lit_as_9:
  "(let s' = handleLine ''N,0,265,255,0,0,0'' s in
     tubes s' 0 = \<lparr>digit = 9, r = 255, g = 0, b = 0, hv = True, comma = False, dim = 0\<rparr>
     \<and> gotFirstCommand s'
     \<and> serial s' = serial s
     \<and> nixie s' = nixie s @
           [tube_call (tubes s 5), tube_call (tubes s 4), tube_call (tubes s 3),
            tube_call (tubes s 2), tube_call (tubes s 1),
            SetNixie 9 (rgbToEnum 255 0 0) True False 0, Latch])"
  unfolding handleLine_def trim_265 Let_def
  by (simp add: parseNLine_fields [OF fields_265] NUM_TUBES_def N_tube_def clamp255_def
      render_eq tube_call_def)

lemma trim_x: "ltrim (rtrim (cstr ''N,0,x,255,0,0,7'')) = ''N,0,x,255,0,0,7''"
  by code_simp

lemma tokens_x:
  "tl (tokens ''N,0,x,255,0,0,7'') = [''0'', ''x'', ''255'', ''0'', ''0'', ''7'']"
  by code_simp

lemma atoi_0: "atoi (ltrim ''0'') = 0"
  by code_simp

lemma atoi_x: "atoi (ltrim ''x'') = 0"
  by code_simp

lemma atoi_2: "atoi (ltrim ''2'') = 2"
  by code_simp

lemma atoi_5: "atoi (ltrim ''5'') = 5"
  by code_simp

lemma atoi_7: "atoi (ltrim ''7'') = 7"
  by code_simp

lemma atoi_255: "atoi (ltrim ''255'') = 255"
  by code_simp

lemma atoi_300: "atoi (ltrim ''300'') = 300"
  by code_simp

lemmas atoi_vals = atoi_0 atoi_x atoi_2 atoi_5 atoi_7 atoi_255 atoi_300

lemma fields_x: "N_fields ''N,0,x,255,0,0,7'' = Some [0, 0, 255, 0, 0, 7]"
  by (simp add: N_fields_tokens tokens_x atoi_vals)

lemma handleLine_x:
  "handleLine ''N,0,x,255,0,0,7'' s =
     render (s\<lparr>gotFirstCommand := True, out_en := 7,
               tubes := (tubes s)(0 :=
                 \<lparr>digit = 0, r = 255, g = 0, b = 0, hv = True, comma = False, dim = 7\<rparr>)\<rparr>)"
  unfolding handleLine_def trim_x Let_def
  by (simp add: parseNLine_fields [OF fields_x] NUM_TUBES_def N_tube_def clamp255_def)

text \<open>
  C3 as stated fails: the field \<open>x\<close> of \<open>N,0,x,255,0,0,7\<close> is no number, yet nothing is
  printed, the mode flag and the brightness are set and tube 0 is rewritten with digit 0.
\<close>

theorem non_numeric_token_counterexample:
  "serial (handleLine ''N,0,x,255,0,0,7'' power_on) = []
   \<and> gotFirstCommand (handleLine ''N,0,x,255,0,0,7'' power_on)
   \<and> out_en (handleLine ''N,0,x,255,0,0,7'' power_on) = 7
   \<and> tubes (handleLine ''N,0,x,255,0,0,7'' power_on) 0 =
       \<lparr>digit = 0, r = 255, g = 0, b = 0, hv = True, comma = False, dim = 7\<rparr>"
  by (simp add: handleLine_x render_eq power_on_def)

lemma trim_short: "ltrim (rtrim (cstr ''N,1,2'')) = ''N,1,2''"
  by code_simp

lemma tokens_short: "tl (tokens ''N,1,2'') = [''1'', ''2'']"
  by code_simp

text \<open>
  The C3 theorem at two lines: one with two fields only, which is refused, and the one
  with the field \<open>x\<close>, which is carried out.
\<close>

theorem N_line_fields_read_by_atoi_witness:
  "handleLine ''N,1,2'' power_on = Serial_println ''ERR parse N line'' power_on
   \<and> handleLine ''N,0,x,255,0,0,7'' power_on =
       render (power_on\<lparr>gotFirstCommand := True, out_en := 7,
         tubes := (tubes power_on)(0 :=
           \<lparr>digit = 0, r = 255, g = 0, b = 0, hv = True, comma = False, dim = 7\<rparr>)\<rparr>)"
proof
  show "handleLine ''N,1,2'' power_on = Serial_println ''ERR parse N line'' power_on"
    using N_line_fields_read_by_atoi [of "''N,1,2''" "''N,1,2''" power_on]
    by (simp add: trim_short tokens_short Let_def)
  show "handleLine ''N,0,x,255,0,0,7'' power_on =
       render (power_on\<lparr>gotFirstCommand := True, out_en := 7,
         tubes := (tubes power_on)(0 :=
           \<lparr>digit = 0, r = 255, g = 0, b = 0, hv = True, comma = False, dim = 7\<rparr>)\<rparr>)"
    using N_line_fields_read_by_atoi
      [of "''N,0,x,255,0,0,7''" "''N,0,x,255,0,0,7''" power_on]
    by (simp add: trim_x tokens_x atoi_vals Let_def N_tube_def clamp255_def)
qed

lemma tokens_300:
  "tl (tokens ''N,2,5,255,0,0,300'') = [''2'', ''5'', ''255'', ''0'', ''0'', ''300'']"
  by code_simp

lemma fields_300: "N_fields ''N,2,5,255,0,0,300'' = Some [2, 5, 255, 0, 0, 300]"
  by (simp add: N_fields_tokens tokens_300 atoi_vals)

text \<open>The C9 theorem at \<open>N,2,5,255,0,0,300\<close>: the brightness becomes 300 mod 256 = 44.\<close>

theorem N_command_sets_brightness_and_mode_witness:
  "parseNLine ''N,2,5,255,0,0,300'' power_on
     = (True, snd (parseNLine ''N,2,5,255,0,0,300'' power_on))
   \<and> gotFirstCommand (snd (parseNLine ''N,2,5,255,0,0,300'' power_on))
   \<and> out_en (snd (parseNLine ''N,2,5,255,0,0,300'' power_on)) = 44
   \<and> tubes (snd (parseNLine ''N,2,5,255,0,0,300'' power_on)) 2 =
        \<lparr>digit = 5, r = 255, g = 0, b = 0, hv = True, comma = False, dim = 44\<rparr>"
proof -
  have h: "parseNLine ''N,2,5,255,0,0,300'' power_on
             = (True, snd (parseNLine ''N,2,5,255,0,0,300'' power_on))"
    by (simp add: parseNLine_fields [OF fields_300] NUM_TUBES_def)
  show ?thesis
    using h N_command_sets_brightness_and_mode [OF h]
    by (simp add: tokens_300 atoi_vals Let_def N_tube_def clamp255_def)
qed

section \<open>The line framer\<close>

lemma handleLine_lastByteAt:
  "handleLine l (s\<lparr>lastByteAt := t\<rparr>) = (handleLine l s)\<lparr>lastByteAt := t\<rparr>"
  by (simp add: handleLine_def Let_def Serial_println_def parseNLine_def setBrightness_def
      setTube_def render_eq split: option.split)

lemma buf_handleLine: "buf (handleLine l s) = buf s"
  by (simp add: handleLine_def Let_def Serial_println_def parseNLine_def setBrightness_def
      setTube_def render_eq split: option.split)

text \<open>
  C7. When the buffer is not empty and \<open>millis() - lastByteAt\<close> has reached
  \<open>IDLE_PARSE_MS\<close>, the idle check hands the buffered bytes to \<open>handleLine\<close> and empties
  the buffer: the same state a terminator byte arriving now would leave, but for
  \<open>lastByteAt\<close>, which only a byte sets.
\<close>

theorem idle_flush_as_terminator:
  assumes "length (buf s) > 0" and "IDLE_PARSE_MS \<le> now - lastByteAt s"
  shows "idle_flush now s = (handleLine (buf s) s)\<lparr>buf := []\<rparr>
         \<and> buf (idle_flush now s) = []
         \<and> serial_byte (CHR 0x0A, t) s = (idle_flush now s)\<lparr>lastByteAt := t\<rparr>
         \<and> serial_byte (CHR 0x0D, t) s = (idle_flush now s)\<lparr>lastByteAt := t\<rparr>"
  using assms
  by (simp add: idle_flush_def serial_byte_def Let_def handleLine_lastByteAt)


lemma handleLine_buf:
  "handleLine l (s\<lparr>buf := x\<rparr>) = (handleLine l s)\<lparr>buf := x\<rparr>"
  by (simp add: handleLine_def Let_def Serial_println_def parseNLine_def setBrightness_def
      setTube_def render_eq split: option.split)

lemma serial_reader_append:
  "serial_reader (xs @ ys) s = serial_reader ys (serial_reader xs s)"
  by (induction xs arbitrary: s) simp_all

lemma serial_byte_append:
  assumes "c \<noteq> CHR 0x0A" and "c \<noteq> CHR 0x0D" and "length (buf s) + 1 < BUF_SIZE"
  shows "serial_byte (c, t) s = s\<lparr>lastByteAt := t, buf := buf s @ [c]\<rparr>"
  using assms by (simp add: serial_byte_def Let_def)

lemma serial_reader_accumulates:
  assumes "\<forall>cn\<in>set bs. fst cn \<noteq> CHR 0x0A \<and> fst cn \<noteq> CHR 0x0D"
    and "length (buf s) + length bs < BUF_SIZE"
  shows "serial_reader bs s =
           (if bs = [] then s
            else s\<lparr>lastByteAt := snd (last bs), buf := buf s @ map fst bs\<rparr>)"
  using assms
proof (induction bs arbitrary: s)
  case Nil
  show ?case by simp
next
  case (Cons cn bs)
  obtain c t where cn: "cn = (c, t)" by (cases cn)
  have c: "c \<noteq> CHR 0x0A" "c \<noteq> CHR 0x0D"
    using Cons.prems(1) cn by auto
  have step: "serial_byte cn s = s\<lparr>lastByteAt := t, buf := buf s @ [c]\<rparr>"
    unfolding cn using c Cons.prems(2) by (intro serial_byte_append) simp_all
  have rest: "\<forall>cn\<in>set bs. fst cn \<noteq> CHR 0x0A \<and> fst cn \<noteq> CHR 0x0D"
    using Cons.prems(1) by simp
  have len: "length (buf (serial_byte cn s)) + length bs < BUF_SIZE"
    using Cons.prems(2) by (simp add: step)
  have "serial_reader (cn # bs) s = serial_reader bs (serial_byte cn s)"
    by simp
  also have "\<dots> = (if bs = [] then serial_byte cn s
            else (serial_byte cn s)\<lparr>lastByteAt := snd (last bs),
                   buf := buf (serial_byte cn s) @ map fst bs\<rparr>)"
    by (rule Cons.IH [OF rest len])
  also have "\<dots> = s\<lparr>lastByteAt := snd (last (cn # bs)), buf := buf s @ map fst (cn # bs)\<rparr>"
    unfolding step by (simp add: cn)
  finally show ?case by simp
qed

text \<open>
  C8. A byte that is no terminator and finds the buffer full (\<open>blen + 1 < sizeof(buf)\<close>
  false) empties the buffer and prints \<open>ERR buffer overflow\<close>; nothing else changes but
  \<open>lastByteAt\<close>, so no line reaches the parser. The bytes \<open>bs\<close> of a line that arrive
  next (fewer than \<open>sizeof(buf)\<close>, no terminator among them) and its terminator then give
  \<open>handleLine\<close> exactly that line.
\<close>

theorem overflow_discards_buffer_then_fresh_line:
  assumes "c \<noteq> CHR 0x0A" and "c \<noteq> CHR 0x0D" and "\<not> length (buf s) + 1 < BUF_SIZE"
    and "bs \<noteq> []" and "length bs < BUF_SIZE"
    and "\<forall>cn\<in>set bs. fst cn \<noteq> CHR 0x0A \<and> fst cn \<noteq> CHR 0x0D"
    and "e = CHR 0x0A \<or> e = CHR 0x0D"
  shows "serial_byte (c, t) s =
           s\<lparr>lastByteAt := t, buf := [], serial := serial s @ [''ERR buffer overflow'']\<rparr>
         \<and> serial_reader (bs @ [(e, t')]) (serial_byte (c, t) s) =
           (handleLine (map fst bs) (serial_byte (c, t) s))\<lparr>lastByteAt := t', buf := []\<rparr>"
proof -
  define s0 where "s0 = serial_byte (c, t) s"
  have over: "s0 = s\<lparr>lastByteAt := t, buf := [], serial := serial s @ [''ERR buffer overflow'']\<rparr>"
    unfolding s0_def using assms(1-3) by (simp add: serial_byte_def Let_def Serial_println_def)
  have empty: "buf s0 = []"
    by (simp add: over)
  have "length (buf s0) + length bs < BUF_SIZE"
    using assms(5) by (simp add: empty)
  from serial_reader_accumulates [OF assms(6) this]
  have acc: "serial_reader bs s0 = s0\<lparr>lastByteAt := snd (last bs), buf := map fst bs\<rparr>"
    using assms(4) by (simp add: empty)
  have "serial_reader (bs @ [(e, t')]) s0 = serial_byte (e, t') (serial_reader bs s0)"
    by (simp add: serial_reader_append)
  also have "\<dots> = (handleLine (map fst bs) s0)\<lparr>lastByteAt := t', buf := []\<rparr>"
    unfolding acc using assms(4,7)
    by (auto simp add: serial_byte_def Let_def handleLine_lastByteAt handleLine_buf)
  finally have "serial_reader (bs @ [(e, t')]) s0 =
      (handleLine (map fst bs) s0)\<lparr>lastByteAt := t', buf := []\<rparr>" .
  then show ?thesis
    using over unfolding s0_def by simp
qed

section \<open>Attract mode\<close>

lemma trim_A: "ltrim (rtrim (cstr ''A'')) = ''A''"
  by code_simp

lemma trim_a: "ltrim (rtrim (cstr ''a'')) = ''a''"
  by code_simp

lemma handleLine_A:
  "l = ''A'' \<or> l = ''a'' \<Longrightarrow>
     handleLine l s = s\<lparr>gotFirstCommand := False, serial := serial s @ [''Attract mode resumed'']\<rparr>"
  unfolding handleLine_def Let_def
  by (erule disjE) (simp_all add: trim_A trim_a Serial_println_def)

lemma random_0_10_le_9: "random_0_10 raw \<le> 9"
proof -
  have "unat (of_nat (raw mod 10) :: u8) = raw mod 10"
    by (simp add: unat_of_nat)
  then have "unat (random_0_10 raw) \<le> unat (9 :: u8)"
    by (simp add: random_0_10_def)
  then show ?thesis
    by (simp only: word_le_nat_alt)
qed

lemma attract_fill_eq:
  "n \<le> 6 \<Longrightarrow>
     attract_fill n rnd s =
       s\<lparr>tubes := (\<lambda>i. if i < n then attract_state (rnd i) else tubes s i)\<rparr>"
proof (induction n)
  case 0
  show ?case by simp
next
  case (Suc n)
  then have n: "n < 6" by simp
  have lt: "(of_nat n :: u8) < NUM_TUBES"
    using n by (simp add: NUM_TUBES_def word_less_nat_alt unat_of_nat)
  have un: "unat (of_nat n :: u8) = n"
    using n by (simp add: unat_of_nat)
  have "attract_fill n rnd s =
       s\<lparr>tubes := (\<lambda>i. if i < n then attract_state (rnd i) else tubes s i)\<rparr>"
    using Suc by simp
  then show ?case
    using lt un
    by (auto simp add: setTube_def attract_state_def ATTRACT_DIM_def fun_eq_iff less_Suc_eq)
qed

text \<open>
  C6. The line \<open>A\<close> or \<open>a\<close>, from any state (so also after a successful N command),
  clears the mode flag, prints the acknowledgement and leaves the tubes as they are. The
  attract check that comes next, once at least \<open>ATTRACT_MS\<close> have passed since
  \<open>lastAttract\<close>, gives every tube a digit \<open>random() % 10\<close> (at most 9), lit, the colour
  (255, 0, 0) and brightness \<open>ATTRACT_DIM\<close>, writes \<open>ATTRACT_DIM\<close> to the pin, renders
  and latches the six tubes and sets \<open>lastAttract\<close>. A pass of \<open>loop\<close> with no byte
  waiting and nothing in the buffer is that attract check.
\<close>

theorem A_then_tick_refills:
  assumes "l = ''A'' \<or> l = ''a''" and "ATTRACT_MS \<le> now - lastAttract s"
  shows "handleLine l s =
           s\<lparr>gotFirstCommand := False, serial := serial s @ [''Attract mode resumed'']\<rparr>
     \<and> tubes (handleLine l s) = tubes s
     \<and> (\<forall>i<6. tubes (attract_tick now rnd (handleLine l s)) i = attract_state (rnd i)
               \<and> digit (tubes (attract_tick now rnd (handleLine l s)) i) \<le> 9)
     \<and> out_en (attract_tick now rnd (handleLine l s)) = ATTRACT_DIM
     \<and> lastAttract (attract_tick now rnd (handleLine l s)) = now
     \<and> nixie (attract_tick now rnd (handleLine l s)) =
         nixie s @ map (\<lambda>i. tube_call (attract_state (rnd i))) [5, 4, 3, 2, 1, 0] @ [Latch]
     \<and> (rx e = [] \<and> buf s = [] \<longrightarrow>
          loop e (handleLine l s) =
            attract_tick (attract_now e) (rnd_raw e) (handleLine l s))"
proof -
  define s1 where "s1 = handleLine l s"
  have s1: "s1 = s\<lparr>gotFirstCommand := False, serial := serial s @ [''Attract mode resumed'']\<rparr>"
    unfolding s1_def by (rule handleLine_A [OF assms(1)])
  have lp: "rx e = [] \<and> buf s = [] \<longrightarrow>
      loop e s1 = attract_tick (attract_now e) (rnd_raw e) s1"
    by (simp add: loop_def idle_flush_def s1)
  have tick: "attract_tick now rnd s1 =
      (render (attract_fill 6 rnd (setBrightness ATTRACT_DIM s1)))\<lparr>lastAttract := now\<rparr>"
    using assms(2) by (simp add: attract_tick_def s1 unat_NUM_TUBES)
  have "s1 = s\<lparr>gotFirstCommand := False, serial := serial s @ [''Attract mode resumed'']\<rparr>
     \<and> tubes s1 = tubes s
     \<and> (\<forall>i<6. tubes (attract_tick now rnd s1) i = attract_state (rnd i)
               \<and> digit (tubes (attract_tick now rnd s1) i) \<le> 9)
     \<and> out_en (attract_tick now rnd s1) = ATTRACT_DIM
     \<and> lastAttract (attract_tick now rnd s1) = now
     \<and> nixie (attract_tick now rnd s1) =
         nixie s @ map (\<lambda>i. tube_call (attract_state (rnd i))) [5, 4, 3, 2, 1, 0] @ [Latch]"
    unfolding tick
    by (simp add: s1 attract_fill_eq render_eq setBrightness_def attract_state_def
        random_0_10_le_9)
  then show ?thesis
    using lp unfolding s1_def by blast
qed

section \<open>The digits in the store\<close>

lemma digits_ok_iff: "digits_ok s \<longleftrightarrow> (\<forall>i<6. digit (tubes s i) \<le> 9)"
  by (auto simp add: digits_ok_def list_all_iff unat_NUM_TUBES)

lemma digits_ok_tubes: "tubes s' = tubes s \<Longrightarrow> digits_ok s' = digits_ok s"
  by (simp add: digits_ok_def)

lemma digits_ok_upd:
  "digits_ok (s\<lparr>buf := x\<rparr>) = digits_ok s"
  "digits_ok (s\<lparr>lastByteAt := y\<rparr>) = digits_ok s"
  "digits_ok (s\<lparr>lastAttract := y\<rparr>) = digits_ok s"
  "digits_ok (s\<lparr>gotFirstCommand := z\<rparr>) = digits_ok s"
  by (simp_all add: digits_ok_def)

lemma digits_ok_render: "digits_ok (render s) = digits_ok s"
  by (rule digits_ok_tubes) (simp add: render_eq)

lemma digits_ok_println: "digits_ok (Serial_println m s) = digits_ok s"
  by (rule digits_ok_tubes) (simp add: Serial_println_def)

lemma digit_N_tube: "digit (N_tube f) \<le> 9"
  by (simp add: N_tube_def)

lemma digits_ok_parseNLine: "digits_ok s \<Longrightarrow> digits_ok (snd (parseNLine p s))"
proof (cases "N_fields p")
  case None
  assume "digits_ok s"
  then show ?thesis by (simp add: parseNLine_missing [OF None])
next
  case (Some f)
  assume "digits_ok s"
  then show ?thesis
    by (simp add: parseNLine_fields [OF Some] digits_ok_render)
       (simp add: digits_ok_iff digit_N_tube)
qed

lemma digits_ok_handleLine: "digits_ok s \<Longrightarrow> digits_ok (handleLine l s)"
  using digits_ok_parseNLine [of s "ltrim (rtrim (cstr l))"]
  by (simp add: handleLine_def Let_def digits_ok_println digits_ok_upd case_prod_beta)

lemma digits_ok_serial_byte: "digits_ok s \<Longrightarrow> digits_ok (serial_byte cn s)"
proof -
  assume ok: "digits_ok s"
  obtain c t where cn: "cn = (c, t)" by (cases cn)
  have "digits_ok (handleLine (buf s) (s\<lparr>lastByteAt := t\<rparr>))"
    using ok by (intro digits_ok_handleLine) (simp add: digits_ok_upd)
  then show ?thesis
    using ok by (simp add: cn serial_byte_def Let_def digits_ok_println digits_ok_upd)
qed

lemma digits_ok_serial_reader: "digits_ok s \<Longrightarrow> digits_ok (serial_reader bs s)"
  by (induction bs arbitrary: s) (simp_all add: digits_ok_serial_byte)

lemma digits_ok_idle_flush: "digits_ok s \<Longrightarrow> digits_ok (idle_flush now s)"
  using digits_ok_handleLine [of s "buf s"]
  by (simp add: idle_flush_def digits_ok_upd)

lemma digits_ok_attract_fill: "digits_ok (attract_fill 6 rnd s)"
  by (simp add: attract_fill_eq digits_ok_iff attract_state_def random_0_10_le_9)

lemma digits_ok_attract_tick: "digits_ok s \<Longrightarrow> digits_ok (attract_tick now rnd s)"
proof -
  assume ok: "digits_ok s"
  define s2 where "s2 = render (attract_fill 6 rnd (setBrightness ATTRACT_DIM s))"
  have "digits_ok s2"
    unfolding s2_def by (simp add: digits_ok_render digits_ok_attract_fill)
  then have "digits_ok (s2\<lparr>lastAttract := now\<rparr>)"
    by (simp add: digits_ok_def)
  then show ?thesis
    using ok unfolding attract_tick_def unat_NUM_TUBES s2_def [symmetric] by simp
qed

lemma digits_ok_loop: "digits_ok s \<Longrightarrow> digits_ok (loop e s)"
  by (simp add: loop_def digits_ok_attract_tick digits_ok_idle_flush digits_ok_serial_reader)

lemma digits_ok_setup: "digits_ok (setup_fn rnd now s)"
proof -
  define s3 where "s3 = render (render (attract_fill 6 rnd (setBrightness ATTRACT_DIM s)))"
  have "digits_ok s3"
    unfolding s3_def by (simp add: digits_ok_render digits_ok_attract_fill)
  then have "digits_ok (s3\<lparr>lastAttract := now\<rparr>)"
    by (simp add: digits_ok_def)
  then show ?thesis
    unfolding setup_fn_def Let_def unat_NUM_TUBES s3_def [symmetric] by simp
qed

lemma reachable_digits_ok: "reachable s \<Longrightarrow> digits_ok s"
  by (induction rule: reachable.induct) (simp_all add: digits_ok_setup digits_ok_loop)

text \<open>
  In every state reachable from boot each of the six tubes holds a digit of at most 9.
  For the N line this is because a successful \<open>parseNLine\<close> stores a digit of at most 9
  in the addressed tube; when the byte \<open>(uint8_t)f[1]\<close> is above 9 it stores digit 0 with
  \<open>hv\<close> false.
\<close>

lemma reachable_store_digits:
  "(reachable s \<longrightarrow> (\<forall>i<6. digit (tubes s i) \<le> 9))
   \<and> (parseNLine p s0 = (True, s1) \<longrightarrow>
        (let f = map (\<lambda>t. atoi (ltrim t)) (take 6 (tl (tokens p)));
             i = unat (word_of_int (f ! 0) :: u8)
         in digit (tubes s1 i) \<le> 9
            \<and> (9 < (word_of_int (f ! 1) :: u8) \<longrightarrow> digit (tubes s1 i) = 0 \<and> \<not> hv (tubes s1 i))))"
proof (intro conjI impI)
  assume "reachable s"
  then show "\<forall>i<6. digit (tubes s i) \<le> 9"
    using reachable_digits_ok by (simp add: digits_ok_iff)
next
  assume ok: "parseNLine p s0 = (True, s1)"
  show "let f = map (\<lambda>t. atoi (ltrim t)) (take 6 (tl (tokens p)));
            i = unat (word_of_int (f ! 0) :: u8)
        in digit (tubes s1 i) \<le> 9
           \<and> (9 < (word_of_int (f ! 1) :: u8) \<longrightarrow> digit (tubes s1 i) = 0 \<and> \<not> hv (tubes s1 i))"
  proof (cases "N_fields p")
    case None
    then show ?thesis using ok by (simp add: parseNLine_missing)
  next
    case (Some f)
    have f: "f = map (\<lambda>t. atoi (ltrim t)) (take 6 (tl (tokens p)))"
      using Some by (simp add: N_fields_tokens split: if_splits)
    have s1: "s1 = render (s0\<lparr>gotFirstCommand := True, out_en := word_of_int (f ! 5),
                tubes := (tubes s0)(unat (word_of_int (f ! 0) :: u8) := N_tube f)\<rparr>)"
      using ok by (simp add: parseNLine_fields [OF Some] split: if_splits)
    show ?thesis
      unfolding Let_def f [symmetric] s1
      by (auto simp add: render_eq N_tube_def)
  qed
qed

section \<open>The colour quantizer\<close>

lemma c_int_32: "- 2147483648 \<le> v \<Longrightarrow> v < 2147483648 \<Longrightarrow> c_int 32 v = v"
  by (simp add: c_int_def)

lemma u8_diff_bounds: "- 255 \<le> uint (x :: u8) - uint (y :: u8) \<and> uint x - uint y \<le> 255"
proof -
  have "uint x < 256" "uint y < 256"
    using uint_bounded [of x] uint_bounded [of y] by simp_all
  moreover have "0 \<le> uint x" "0 \<le> uint y" by simp_all
  ultimately show ?thesis by linarith
qed

lemma square_bounds:
  fixes d :: int
  assumes "- 255 \<le> d" and "d \<le> 255"
  shows "0 \<le> d * d" and "d * d \<le> 65025"
proof -
  show "0 \<le> d * d" by simp
  have "\<bar>d\<bar> \<le> 255" using assms by simp
  then have "\<bar>d\<bar> * \<bar>d\<bar> \<le> 255 * 255"
    by (intro mult_mono) simp_all
  then show "d * d \<le> 65025" by (simp add: abs_mult_self_eq)
qed

lemma sqdist_bounds: "0 \<le> sqdist cr cg cb p \<and> sqdist cr cg cb p \<le> 195075"
proof -
  obtain pr pg pb pe where p: "p = (pr, pg, pb, pe)" by (cases p)
  show ?thesis
    using square_bounds [OF u8_diff_bounds [of cr pr, THEN conjunct1] u8_diff_bounds [of cr pr, THEN conjunct2]]
      square_bounds [OF u8_diff_bounds [of cg pg, THEN conjunct1] u8_diff_bounds [of cg pg, THEN conjunct2]]
      square_bounds [OF u8_diff_bounds [of cb pb, THEN conjunct1] u8_diff_bounds [of cb pb, THEN conjunct2]]
    by (simp add: sqdist_def p power2_eq_square)
qed

lemma c_int_32_diff:
  fixes x y :: u8
  shows "c_int 32 (uint x - uint y) = uint x - uint y"
proof -
  have "- 255 \<le> uint x - uint y" and "uint x - uint y \<le> 255"
    using u8_diff_bounds [of x y] by simp_all
  then show ?thesis
    by (intro c_int_32) linarith+
qed

lemma c_int_32_square:
  fixes x y :: u8
  shows "c_int 32 ((uint x - uint y) * (uint x - uint y)) = (uint x - uint y) * (uint x - uint y)"
proof -
  have "0 \<le> (uint x - uint y) * (uint x - uint y)"
    and "(uint x - uint y) * (uint x - uint y) \<le> 65025"
    using square_bounds [OF u8_diff_bounds [of x y, THEN conjunct1]
        u8_diff_bounds [of x y, THEN conjunct2]] by simp_all
  then show ?thesis
    by (intro c_int_32) linarith+
qed

lemma pal_d_32: "pal_d 32 cr cg cb p = word_of_int (sqdist cr cg cb p)"
proof -
  obtain pr pg pb pe where p: "p = (pr, pg, pb, pe)" by (cases p)
  show ?thesis
    by (simp add: pal_d_def p Let_def c_int_32_diff c_int_32_square sqdist_def power2_eq_square)
qed

lemma word32_less_iff:
  fixes x y :: int
  assumes "0 \<le> x" "x < 4294967296" "0 \<le> y" "y < 4294967296"
  shows "(word_of_int x :: u32) < word_of_int y \<longleftrightarrow> x < y"
proof -
  have "uint (word_of_int x :: u32) = x" "uint (word_of_int y :: u32) = y"
    using assms by (simp_all add: uint_word_of_int take_bit_eq_mod)
  then show ?thesis by (simp add: word_less_def)
qed


lemma word32_sqdist_less:
  "(word_of_int (sqdist cr cg cb p) :: u32) < word_of_int (sqdist cr cg cb q)
     \<longleftrightarrow> sqdist cr cg cb p < sqdist cr cg cb q"
  using sqdist_bounds [of cr cg cb p] sqdist_bounds [of cr cg cb q]
  by (intro word32_less_iff) linarith+

lemma nearest_keeps:
  fixes D :: int
  assumes "0 \<le> D" and "D < 4294967296" and "\<forall>p\<in>set ps. D \<le> sqdist cr cg cb p"
  shows "nearest 32 cr cg cb ps (word_of_int D) e = e"
  using assms(3)
proof (induction ps)
  case Nil
  show ?case by simp
next
  case (Cons p ps)
  have "D \<le> sqdist cr cg cb p" using Cons.prems by simp
  then have "\<not> (word_of_int (sqdist cr cg cb p) :: u32) < word_of_int D"
    using sqdist_bounds [of cr cg cb p] assms(1,2)
    by (subst word32_less_iff) linarith+
  then show ?case
    using Cons by (simp add: pal_d_32 Let_def)
qed

lemma nearest_first_min:
  fixes D :: int
  assumes "0 \<le> D" and "D < 4294967296" and "\<exists>p\<in>set ps. sqdist cr cg cb p < D"
  shows "\<exists>us p vs. ps = us @ p # vs
           \<and> nearest 32 cr cg cb ps (word_of_int D) e = ev p
           \<and> sqdist cr cg cb p < D
           \<and> (\<forall>q\<in>set us. sqdist cr cg cb p < sqdist cr cg cb q)
           \<and> (\<forall>q\<in>set vs. sqdist cr cg cb p \<le> sqdist cr cg cb q)"
  using assms
proof (induction ps arbitrary: D e)
  case Nil
  then show ?case by simp
next
  case (Cons p0 ps)
  let ?f = "sqdist cr cg cb"
  have b0: "0 \<le> ?f p0" "?f p0 < 4294967296"
    using sqdist_bounds [of cr cg cb p0] by linarith+
  have cmp: "((word_of_int (?f p0) :: u32) < word_of_int D) = (?f p0 < D)"
    using b0 Cons.prems(1,2) by (intro word32_less_iff) linarith+
  show ?case
  proof (cases "?f p0 < D")
    case True
    then have step: "nearest 32 cr cg cb (p0 # ps) (word_of_int D) e
                     = nearest 32 cr cg cb ps (word_of_int (?f p0)) (ev p0)"
      by (simp add: pal_d_32 Let_def cmp)
    show ?thesis
    proof (cases "\<exists>q\<in>set ps. ?f q < ?f p0")
      case True
      from Cons.IH [OF b0 True, of "ev p0"]
      obtain us p vs where h: "ps = us @ p # vs"
        "nearest 32 cr cg cb ps (word_of_int (?f p0)) (ev p0) = ev p"
        "?f p < ?f p0" "\<forall>q\<in>set us. ?f p < ?f q" "\<forall>q\<in>set vs. ?f p \<le> ?f q"
        by blast
      have "p0 # ps = (p0 # us) @ p # vs" using h(1) by simp
      moreover have "nearest 32 cr cg cb (p0 # ps) (word_of_int D) e = ev p"
        using step h(2) by simp
      moreover have "?f p < D" using h(3) \<open>?f p0 < D\<close> by linarith
      moreover have "\<forall>q\<in>set (p0 # us). ?f p < ?f q" using h(3,4) by simp
      ultimately show ?thesis using h(5) by blast
    next
      case False
      then have "\<forall>q\<in>set ps. ?f p0 \<le> ?f q" by (simp add: not_less)
      from nearest_keeps [OF b0 this, of "ev p0"]
      have "nearest 32 cr cg cb (p0 # ps) (word_of_int D) e = ev p0"
        using step by simp
      moreover have "p0 # ps = [] @ p0 # ps" by simp
      ultimately show ?thesis
        using \<open>?f p0 < D\<close> \<open>\<forall>q\<in>set ps. ?f p0 \<le> ?f q\<close> by fastforce
    qed
  next
    case False
    then have step: "nearest 32 cr cg cb (p0 # ps) (word_of_int D) e
                     = nearest 32 cr cg cb ps (word_of_int D) e"
      by (simp add: pal_d_32 Let_def cmp)
    have "\<exists>q\<in>set ps. ?f q < D"
      using Cons.prems(3) False by auto
    from Cons.IH [OF Cons.prems(1,2) this, of e]
    obtain us p vs where h: "ps = us @ p # vs"
      "nearest 32 cr cg cb ps (word_of_int D) e = ev p"
      "?f p < D" "\<forall>q\<in>set us. ?f p < ?f q" "\<forall>q\<in>set vs. ?f p \<le> ?f q"
      by blast
    have "p0 # ps = (p0 # us) @ p # vs" using h(1) by simp
    moreover have "nearest 32 cr cg cb (p0 # ps) (word_of_int D) e = ev p"
      using step h(2) by simp
    moreover have "\<forall>q\<in>set (p0 # us). ?f p < ?f q" using h(3,4) False by auto
    ultimately show ?thesis using h(3,5) by blast
  qed
qed


lemma sqdist_zero_iff:
  "sqdist cr cg cb (pr, pg, pb, pe) = 0 \<longleftrightarrow> pr = cr \<and> pg = cg \<and> pb = cb"
proof -
  let ?x = "uint cr - uint pr" and ?y = "uint cg - uint pg" and ?z = "uint cb - uint pb"
  have nn: "0 \<le> ?x\<^sup>2" "0 \<le> ?y\<^sup>2" "0 \<le> ?z\<^sup>2" by simp_all
  have "?x\<^sup>2 + ?y\<^sup>2 + ?z\<^sup>2 = 0 \<longleftrightarrow> ?x\<^sup>2 = 0 \<and> ?y\<^sup>2 = 0 \<and> ?z\<^sup>2 = 0"
    using nn by linarith
  also have "\<dots> \<longleftrightarrow> ?x = 0 \<and> ?y = 0 \<and> ?z = 0" by simp
  also have "\<dots> \<longleftrightarrow> pr = cr \<and> pg = cg \<and> pb = cb"
    by (auto simp add: word_uint_eq_iff)
  finally show ?thesis by (simp add: sqdist_def)
qed

lemma exact_match_Some:
  "exact_match cr cg cb ps = Some e \<Longrightarrow>
     \<exists>us p vs. ps = us @ p # vs \<and> e = ev p \<and> sqdist cr cg cb p = 0
       \<and> (\<forall>q\<in>set us. 0 < sqdist cr cg cb q)"
proof (induction ps)
  case Nil
  then show ?case by simp
next
  case (Cons p0 ps)
  obtain pr pg pb pe where p0: "p0 = (pr, pg, pb, pe)" by (cases p0)
  show ?case
  proof (cases "pr = cr \<and> pg = cg \<and> pb = cb")
    case True
    then have "e = ev p0" using Cons.prems by (simp add: p0 ev_def)
    moreover have "sqdist cr cg cb p0 = 0"
      using True by (simp add: p0 sqdist_zero_iff)
    moreover have "p0 # ps = [] @ p0 # ps" by simp
    ultimately show ?thesis by fastforce
  next
    case False
    then have "exact_match cr cg cb ps = Some e"
      using Cons.prems unfolding p0 by auto
    from Cons.IH [OF this]
    obtain us p vs where h: "ps = us @ p # vs" "e = ev p" "sqdist cr cg cb p = 0"
      "\<forall>q\<in>set us. 0 < sqdist cr cg cb q"
      by blast
    have "sqdist cr cg cb p0 \<noteq> 0"
      using False by (simp add: p0 sqdist_zero_iff)
    then have "0 < sqdist cr cg cb p0"
      using sqdist_bounds [of cr cg cb p0] by linarith
    then have "\<forall>q\<in>set (p0 # us). 0 < sqdist cr cg cb q"
      using h(4) by simp
    moreover have "p0 # ps = (p0 # us) @ p # vs" using h(1) by simp
    ultimately show ?thesis using h(2,3) by blast
  qed
qed

text \<open>
  With \<open>int\<close> of 32 bits no product overflows, and the quantizer returns the \<open>ev\<close> of the
  palette entry that is nearest to the input, the first of them in the table when several
  are: every entry before it is strictly farther, none after it is nearer.
\<close>

lemma rgbToEnum_w_32_nearest:
  "\<exists>us p vs. pal = us @ p # vs
     \<and> rgbToEnum_w 32 cr cg cb = ev p
     \<and> (\<forall>q\<in>set us. sqdist cr cg cb p < sqdist cr cg cb q)
     \<and> (\<forall>q\<in>set vs. sqdist cr cg cb p \<le> sqdist cr cg cb q)"
proof (cases "exact_match cr cg cb pal")
  case None
  have init: "(0xFFFFFFFF :: u32) = word_of_int 4294967295" by simp
  have "hd pal \<in> set pal" by (simp add: pal_def)
  moreover have "sqdist cr cg cb (hd pal) < 4294967295"
    using sqdist_bounds [of cr cg cb "hd pal"] by linarith
  ultimately have ex: "\<exists>p\<in>set pal. sqdist cr cg cb p < 4294967295" by blast
  have "\<exists>us p vs. pal = us @ p # vs
           \<and> nearest 32 cr cg cb pal (word_of_int 4294967295) (ev (hd pal)) = ev p
           \<and> sqdist cr cg cb p < 4294967295
           \<and> (\<forall>q\<in>set us. sqdist cr cg cb p < sqdist cr cg cb q)
           \<and> (\<forall>q\<in>set vs. sqdist cr cg cb p \<le> sqdist cr cg cb q)"
    by (rule nearest_first_min [OF _ _ ex]) simp_all
  then show ?thesis
    unfolding rgbToEnum_w_def None option.case init by blast
next
  case (Some e)
  from exact_match_Some [OF Some]
  obtain us p vs where h: "pal = us @ p # vs" "e = ev p" "sqdist cr cg cb p = 0"
    "\<forall>q\<in>set us. 0 < sqdist cr cg cb q"
    by blast
  have "\<forall>q\<in>set vs. sqdist cr cg cb p \<le> sqdist cr cg cb q"
    using sqdist_bounds h(3) by simp
  moreover have "rgbToEnum_w 32 cr cg cb = ev p"
    by (simp add: rgbToEnum_w_def Some h(2))
  moreover have "\<forall>q\<in>set us. sqdist cr cg cb p < sqdist cr cg cb q"
    using h(3,4) by simp
  ultimately show ?thesis
    using h(1) by blast
qed

text \<open>At the width of the target, an input equal to a palette entry still gives that entry.\<close>

lemma rgbToEnum_palette_entries:
  "list_all (\<lambda>p. case p of (pr, pg, pb, pe) \<Rightarrow> rgbToEnum pr pg pb = pe) pal"
  by code_simp

text \<open>
  C4 at the triple (0, 0, 0), with \<open>int\<close> of \<open>INT_BITS\<close> = 16 bits. The nearest palette
  entries are at squared distance 65025 (blue, the first of them), white is the farthest
  at 195075. The product \<open>255 * 255\<close> does not fit \<open>int\<close>: \<open>d\<close> is 4294966785 for blue and
  4294965763 for white, the smallest of the seven, and the quantizer returns white. With
  \<open>int\<close> of 32 bits it returns blue.
\<close>

theorem rgbToEnum_black_gives_white:
  "rgbToEnum 0 0 0 = EASY_NIXIE_WHITE
   \<and> sqdist 0 0 0 (0, 0, 255, EASY_NIXIE_BLUE) = 65025
   \<and> sqdist 0 0 0 (255, 255, 255, EASY_NIXIE_WHITE) = 195075
   \<and> pal_d INT_BITS 0 0 0 (0, 0, 255, EASY_NIXIE_BLUE) = 4294966785
   \<and> pal_d INT_BITS 0 0 0 (255, 255, 255, EASY_NIXIE_WHITE) = 4294965763
   \<and> rgbToEnum_w 32 0 0 0 = EASY_NIXIE_BLUE"
  by code_simp

section \<open>The theorems with hypotheses, at concrete inputs\<close>

text \<open>The C7 theorem with \<open>A\<close> in the buffer, 30 ms after its byte.\<close>

theorem idle_flush_as_terminator_witness:
  "idle_flush 130 (power_on\<lparr>buf := ''A'', lastByteAt := 100\<rparr>)
     = power_on\<lparr>buf := [], lastByteAt := 100, gotFirstCommand := False,
         serial := [''Attract mode resumed'']\<rparr>
   \<and> serial_byte (CHR 0x0A, 130) (power_on\<lparr>buf := ''A'', lastByteAt := 100\<rparr>)
     = (idle_flush 130 (power_on\<lparr>buf := ''A'', lastByteAt := 100\<rparr>))\<lparr>lastByteAt := 130\<rparr>"
proof -
  have a: "length (buf (power_on\<lparr>buf := ''A'', lastByteAt := 100\<rparr>)) > 0"
    by simp
  have b: "IDLE_PARSE_MS \<le> 130 - lastByteAt (power_on\<lparr>buf := ''A'', lastByteAt := 100\<rparr>)"
    by (simp add: IDLE_PARSE_MS_def)
  show ?thesis
    using idle_flush_as_terminator [OF a b, of 130]
    by (simp add: handleLine_A power_on_def)
qed

text \<open>
  The C8 theorem with 191 bytes in the buffer: the next byte overflows, the line \<open>A\<close>
  sent after it is handled.
\<close>

theorem overflow_discards_buffer_then_fresh_line_witness:
  "serial_byte (CHR ''y'', 4) (power_on\<lparr>buf := replicate 191 (CHR ''x'')\<rparr>)
     = power_on\<lparr>buf := [], lastByteAt := 4, serial := [''ERR buffer overflow'']\<rparr>
   \<and> serial (serial_reader ([(CHR ''A'', 5)] @ [(CHR 0x0A, 6)])
        (serial_byte (CHR ''y'', 4) (power_on\<lparr>buf := replicate 191 (CHR ''x'')\<rparr>)))
     = [''ERR buffer overflow'', ''Attract mode resumed'']"
proof -
  define S where "S = power_on\<lparr>buf := replicate 191 (CHR ''x'')\<rparr>"
  define X where "X = serial_byte (CHR ''y'', 4) S"
  have a: "\<not> length (buf S) + 1 < BUF_SIZE"
    by (simp add: BUF_SIZE_def S_def)
  have b: "[(CHR ''A'', 5 :: u32)] \<noteq> []" "length [(CHR ''A'', 5 :: u32)] < BUF_SIZE"
    "\<forall>cn\<in>set [(CHR ''A'', 5 :: u32)]. fst cn \<noteq> CHR 0x0A \<and> fst cn \<noteq> CHR 0x0D"
    by (simp_all add: BUF_SIZE_def)
  have c: "CHR ''y'' \<noteq> CHR 0x0A" "CHR ''y'' \<noteq> CHR 0x0D" "CHR 0x0A = CHR 0x0A \<or> CHR 0x0A = CHR 0x0D"
    by simp_all
  note th = overflow_discards_buffer_then_fresh_line [OF c(1,2) a b c(3), of 4 6, folded X_def]
  have o: "X = S\<lparr>lastByteAt := 4, buf := [], serial := serial S @ [''ERR buffer overflow'']\<rparr>"
    using th by (rule conjunct1)
  have r: "serial_reader ([(CHR ''A'', 5)] @ [(CHR 0x0A, 6)]) X =
             (handleLine (map fst [(CHR ''A'', 5 :: u32)]) X)\<lparr>lastByteAt := 6, buf := []\<rparr>"
    using th by (rule conjunct2)
  have "serial (serial_reader ([(CHR ''A'', 5)] @ [(CHR 0x0A, 6)]) X) =
          serial X @ [''Attract mode resumed'']"
    unfolding r by (simp add: handleLine_A)
  also have "\<dots> = [''ERR buffer overflow'', ''Attract mode resumed'']"
    by (simp add: o S_def power_on_def)
  finally have f: "serial (serial_reader ([(CHR ''A'', 5)] @ [(CHR 0x0A, 6)]) X) =
      [''ERR buffer overflow'', ''Attract mode resumed'']" .
  have "X = power_on\<lparr>buf := [], lastByteAt := 4, serial := [''ERR buffer overflow'']\<rparr>"
    by (simp add: o S_def power_on_def)
  then show ?thesis
    using f unfolding X_def S_def by (rule conjI)
qed


lemma fields_250: "N_fields ''N,2,5,255,0,0,0'' = Some [2, 5, 255, 0, 0, 0]"
  by code_simp

lemma parse_250:
  "parseNLine ''N,2,5,255,0,0,0'' power_on =
     (True, render (power_on\<lparr>gotFirstCommand := True, out_en := 0,
        tubes := (tubes power_on)(2 :=
          \<lparr>digit = 5, r = 255, g = 0, b = 0, hv = True, comma = False, dim = 0\<rparr>)\<rparr>))"
  by (simp add: parseNLine_fields [OF fields_250] NUM_TUBES_def N_tube_def clamp255_def)

text \<open>
  The C6 theorem after the line \<open>N,2,5,255,0,0,0\<close>: \<open>A\<close> leaves tube 2 as that line set
  it, and the attract check at 60 ms overwrites it.
\<close>

theorem A_then_tick_refills_witness:
  "fst (parseNLine ''N,2,5,255,0,0,0'' power_on)
   \<and> \<not> gotFirstCommand (handleLine ''A'' (snd (parseNLine ''N,2,5,255,0,0,0'' power_on)))
   \<and> tubes (handleLine ''A'' (snd (parseNLine ''N,2,5,255,0,0,0'' power_on))) 2 =
        \<lparr>digit = 5, r = 255, g = 0, b = 0, hv = True, comma = False, dim = 0\<rparr>
   \<and> tubes (attract_tick 60 (\<lambda>i. 17 + i)
              (handleLine ''A'' (snd (parseNLine ''N,2,5,255,0,0,0'' power_on)))) 2 =
        \<lparr>digit = 9, r = 255, g = 0, b = 0, hv = True, comma = False, dim = 0\<rparr>
   \<and> loop \<lparr>rx = [], idle_now = 60, attract_now = 60, rnd_raw = (\<lambda>i. 17 + i)\<rparr>
        (handleLine ''A'' (snd (parseNLine ''N,2,5,255,0,0,0'' power_on))) =
      attract_tick 60 (\<lambda>i. 17 + i)
        (handleLine ''A'' (snd (parseNLine ''N,2,5,255,0,0,0'' power_on)))"
proof -
  define S where "S = snd (parseNLine ''N,2,5,255,0,0,0'' power_on)"
  define E where "E = \<lparr>rx = [], idle_now = 60, attract_now = 60, rnd_raw = (\<lambda>i. 17 + i)\<rparr>"
  have S: "S = render (power_on\<lparr>gotFirstCommand := True, out_en := 0,
        tubes := (tubes power_on)(2 :=
          \<lparr>digit = 5, r = 255, g = 0, b = 0, hv = True, comma = False, dim = 0\<rparr>)\<rparr>)"
    by (simp add: S_def parse_250)
  have a: "''A'' = ''A'' \<or> ''A'' = ''a''" by simp
  have b: "rx E = [] \<and> buf S = []" by (simp add: E_def S render_eq power_on_def)
  have d: "ATTRACT_MS \<le> 60 - lastAttract S"
    by (simp add: S render_eq power_on_def ATTRACT_MS_def)
  note th = A_then_tick_refills [OF a d, of "\<lambda>i. 17 + i" E]
  have g: "handleLine ''A'' S =
      S\<lparr>gotFirstCommand := False, serial := serial S @ [''Attract mode resumed'']\<rparr>"
    using th by (rule conjunct1)
  have t1: "tubes (handleLine ''A'' S) = tubes S"
    using th [THEN conjunct2] by (rule conjunct1)
  have "\<forall>i<6. tubes (attract_tick 60 (\<lambda>i. 17 + i) (handleLine ''A'' S)) i
                 = attract_state (17 + i)
               \<and> digit (tubes (attract_tick 60 (\<lambda>i. 17 + i) (handleLine ''A'' S)) i) \<le> 9"
    using th [THEN conjunct2, THEN conjunct2] by (rule conjunct1)
  then have t2: "tubes (attract_tick 60 (\<lambda>i. 17 + i) (handleLine ''A'' S)) 2
                   = attract_state (17 + 2)"
    by simp
  have "rx E = [] \<and> buf S = [] \<longrightarrow>
      loop E (handleLine ''A'' S) =
        attract_tick (attract_now E) (rnd_raw E) (handleLine ''A'' S)"
    using th by blast
  then have t3: "loop E (handleLine ''A'' S) =
      attract_tick 60 (\<lambda>i. 17 + i) (handleLine ''A'' S)"
    using b by (simp add: E_def)
  have "fst (parseNLine ''N,2,5,255,0,0,0'' power_on)"
    by (simp add: parse_250)
  moreover have "\<not> gotFirstCommand (handleLine ''A'' S)"
    by (simp add: g)
  moreover have "tubes (handleLine ''A'' S) 2 =
        \<lparr>digit = 5, r = 255, g = 0, b = 0, hv = True, comma = False, dim = 0\<rparr>"
    unfolding t1 by (simp add: S render_eq)
  moreover have "tubes (attract_tick 60 (\<lambda>i. 17 + i) (handleLine ''A'' S)) 2 =
        \<lparr>digit = 9, r = 255, g = 0, b = 0, hv = True, comma = False, dim = 0\<rparr>"
    unfolding t2 by (simp add: attract_state_def random_0_10_def)
  ultimately show ?thesis
    using t3 unfolding S_def E_def by blast
qed


end
